theory Spec2Isabelle
  imports Complex_Main "HOL-Library.Sublist"
begin

chapter \<open>The program\<close>

section \<open>Exceptions\<close>

text \<open>
  The Python exceptions that the modelled code can meet. \<open>KeyboardInterrupt\<close> is the only
  one that is not a subclass of \<open>Exception\<close>; \<open>OtherException\<close> stands for any further
  subclass of \<open>Exception\<close> raised by a collaborator (camera, interpreter, display).
  \<open>InvalidFrame\<close> is the error named by the specification of the overlay renderer; no
  statement of the source defines or raises it.
\<close>

datatype py_exn =
    AttributeError
  | ValueError
  | ZeroDivisionError
  | KeyboardInterrupt
  | OtherException
  | InvalidFrame

definition is_Exception :: "py_exn \<Rightarrow> bool" where
  "is_Exception x = (x \<noteq> KeyboardInterrupt)"

section \<open>Detection history (main_controller.py)\<close>

text \<open>
  A history entry is the tuple \<open>(class_name, confidence, timestamp)\<close> of
  \<open>update_detection_history\<close>. A Python float is modelled by the real number it stands
  for. The arithmetic of the average rounds as the doubles of Python do (see the section on
  floating-point arithmetic); the differences of clock readings that the code compares with
  a bound are taken exactly.
\<close>

type_synonym sample = "string \<times> real \<times> real"

text \<open>The fields of \<open>ObjectDetectionController\<close> that the detection logic reads and writes.\<close>

record controller =
  confidence_threshold :: real
  detection_history :: "sample list"
  max_history :: nat

text \<open>The values that \<open>__init__\<close> assigns.\<close>

definition init_controller :: controller where
  "init_controller = \<lparr> confidence_threshold = 0.5, detection_history = [], max_history = 10 \<rparr>"

text \<open>
  \<open>update_detection_history\<close>: append, then pop the head once if the list is longer than
  \<open>max_history\<close>. The time stamp is the value \<open>time.time()\<close> returns inside the call; it is
  an argument here.
\<close>

definition update_detection_history ::
    "'a controller_scheme \<Rightarrow> string \<Rightarrow> real \<Rightarrow> real \<Rightarrow> 'a controller_scheme" where
  "update_detection_history self class_name confidence now =
     (let appended = detection_history self @ [(class_name, confidence, now)]
      in if length appended > max_history self
         then self\<lparr>detection_history := tl appended\<rparr>
         else self\<lparr>detection_history := appended\<rparr>)"

text \<open>A sequence of calls, each with its class name, confidence and time stamp.\<close>

fun appends :: "'a controller_scheme \<Rightarrow> sample list \<Rightarrow> 'a controller_scheme" where
  "appends self [] = self"
| "appends self ((class_name, confidence, now) # rest) =
     appends (update_detection_history self class_name confidence now) rest"

section \<open>Smoothing (main_controller.py)\<close>

text \<open>
  The list comprehension of \<open>get_smoothed_detection\<close>: the entries younger than two
  seconds, without their time stamps.
\<close>

definition recent_detections :: "sample list \<Rightarrow> real \<Rightarrow> (string \<times> real) list" where
  "recent_detections history current_time =
     [(name, conf). (name, conf, timestamp) \<leftarrow> history, current_time - timestamp < 2.0]"

text \<open>
  \<open>class_counts\<close> is a Python dict, which iterates in insertion order: an association list
  with distinct keys. \<open>count_class\<close> is the statement
  \<open>class_counts[name] = class_counts.get(name, 0) + 1\<close>: an existing key keeps its place, a
  new key goes to the end.
\<close>

fun count_class :: "(string \<times> nat) list \<Rightarrow> string \<Rightarrow> (string \<times> nat) list" where
  "count_class [] name = [(name, 0 + 1)]"
| "count_class ((k, v) # kvs) name =
     (if k = name then (k, v + 1) # kvs else (k, v) # count_class kvs name)"

definition class_counts_of :: "(string \<times> real) list \<Rightarrow> (string \<times> nat) list" where
  "class_counts_of recent = foldl count_class [] (map fst recent)"

text \<open>
  \<open>dict.get\<close> as the key function of \<open>max\<close>. It is only applied to keys of the dict; for
  another key Python would return \<open>None\<close>, which is 0 here.
\<close>

definition dict_get :: "(string \<times> nat) list \<Rightarrow> string \<Rightarrow> nat" where
  "dict_get d k = (case map_of d k of Some v \<Rightarrow> v | None \<Rightarrow> 0)"

text \<open>
  The builtin \<open>max(iterable, key=f)\<close>: the first item is the candidate, and a later item
  replaces it only if its key is strictly greater. On an empty iterable it raises
  \<open>ValueError\<close>.
\<close>

fun max_from :: "('a \<Rightarrow> nat) \<Rightarrow> 'a \<Rightarrow> 'a list \<Rightarrow> 'a" where
  "max_from key best [] = best"
| "max_from key best (x # xs) = max_from key (if key x > key best then x else best) xs"

definition py_max :: "('a \<Rightarrow> nat) \<Rightarrow> 'a list \<Rightarrow> py_exn + 'a" where
  "py_max key xs = (case xs of [] \<Rightarrow> Inl ValueError | x # rest \<Rightarrow> Inr (max_from key x rest))"

subsection \<open>Floating-point arithmetic\<close>

text \<open>
  A Python float is an IEEE 754 binary64 number: a sign, a significand of 53 bits and an
  exponent. Every operation returns the exact result rounded to the nearest such number, a
  tie going to the one with an even significand. The model covers the finite results of the
  normal range: overflow, subnormal numbers, infinities and NaN are not part of it.

  \<open>bit_length\<close> is the number of binary digits of a natural number, \<open>pow2 k\<close> is the
  power \<open>2\<^sup>k\<close> for an integer \<open>k\<close>, and \<open>exponent x\<close> is the \<open>e\<close> with
  \<open>2\<^sup>e \<le> |x| < 2\<^sup>e\<^sup>+\<^sup>1\<close>, for \<open>x\<close> other than 0.
\<close>

fun bit_length :: "nat \<Rightarrow> nat" where
  "bit_length n = (if n = 0 then 0 else Suc (bit_length (n div 2)))"

declare bit_length.simps [simp del]

definition pow2 :: "int \<Rightarrow> real" where
  "pow2 k = (if k \<ge> 0 then 2 ^ nat k else 1 / 2 ^ nat (- k))"

definition exponent :: "real \<Rightarrow> int" where
  "exponent x =
     (if \<bar>x\<bar> \<ge> 1 then int (bit_length (nat \<lfloor>\<bar>x\<bar>\<rfloor>)) - 1
      else - int (bit_length (nat (\<lceil>1 / \<bar>x\<bar>\<rceil> - 1))))"

text \<open>The nearest integer, a tie going to the even one.\<close>

definition round_half_even :: "real \<Rightarrow> int" where
  "round_half_even x =
     (let f = \<lfloor>x\<rfloor>; r = x - of_int f
      in if r < 1 / 2 then f else if r > 1 / 2 then f + 1 else if even f then f else f + 1)"

text \<open>
  The nearest double: the multiples of \<open>2\<^sup>e\<^sup>-\<^sup>5\<^sup>2\<close> are the doubles between \<open>2\<^sup>e\<close> and
  \<open>2\<^sup>e\<^sup>+\<^sup>1\<close>.
\<close>

definition round_double :: "real \<Rightarrow> real" where
  "round_double x =
     (if x = 0 then 0
      else let ulp = pow2 (exponent x - 52) in of_int (round_half_even (x / ulp)) * ulp)"

text \<open>A decimal literal such as \<open>0.9\<close> denotes the double nearest to it.\<close>

definition py_float :: "real \<Rightarrow> real" where
  "py_float x = round_double x"

text \<open>The operators \<open>+\<close> and \<open>/\<close> on floats.\<close>

definition fadd :: "real \<Rightarrow> real \<Rightarrow> real" where
  "fadd a b = round_double (a + b)"

definition fdiv :: "real \<Rightarrow> real \<Rightarrow> real" where
  "fdiv a b = round_double (a / b)"

text \<open>
  \<open>sum(xs) / len(xs)\<close>, which raises \<open>ZeroDivisionError\<close> on an empty list. \<open>sum\<close> starts
  from 0 and adds the elements from the left, each partial sum being rounded; the length is
  converted to a float, exactly, and the division is rounded. (From version 3.12 on, CPython
  adds to the sum of floats a correction for the rounding errors made on the way; for a list
  of one or two floats the result is the same.)
\<close>

definition average :: "real list \<Rightarrow> py_exn + real" where
  "average xs = (if length xs = 0 then Inl ZeroDivisionError
                 else Inr (fdiv (foldl fadd 0 xs) (real (length xs))))"

text \<open>
  \<open>get_smoothed_detection\<close>. \<open>current_time\<close> is the value of \<open>time.time()\<close> inside the
  call. The method assigns to no field of \<open>self\<close>; the controller is returned next to the
  result so that this can be stated.
\<close>

definition get_smoothed_detection ::
    "'a controller_scheme \<Rightarrow> real \<Rightarrow> 'a controller_scheme \<times> (py_exn + string \<times> real)" where
  "get_smoothed_detection self current_time =
     (if detection_history self = [] then (self, Inr (''No detection'', 0.0))
      else
        let recent = recent_detections (detection_history self) current_time in
        if recent = [] then (self, Inr (''No detection'', 0.0))
        else
          let class_counts = class_counts_of recent in
          (case py_max (dict_get class_counts) (map fst class_counts) of
             Inl e \<Rightarrow> (self, Inl e)
           | Inr most_common_class \<Rightarrow>
               let class_confidences = [conf. (name, conf) \<leftarrow> recent, name = most_common_class] in
               (case average class_confidences of
                  Inl e \<Rightarrow> (self, Inl e)
                | Inr avg_confidence \<Rightarrow> (self, Inr (most_common_class, avg_confidence)))))"

text \<open>
  The contract of the specification's history buffer, in its words: the samples whose
  \<open>observed_at\<close> is at least \<open>now - window_seconds\<close>, in their order.
\<close>

definition snapshot_within :: "real \<Rightarrow> real \<Rightarrow> sample list \<Rightarrow> sample list" where
  "snapshot_within window_seconds now history =
     filter (\<lambda>(label, confidence, observed_at). observed_at \<ge> now - window_seconds) history"

text \<open>The same with the boundary left out: a sample exactly \<open>window_seconds\<close> old is dropped.\<close>

definition snapshot_younger :: "real \<Rightarrow> real \<Rightarrow> sample list \<Rightarrow> sample list" where
  "snapshot_younger window_seconds now history =
     filter (\<lambda>(label, confidence, observed_at). observed_at > now - window_seconds) history"

definition label_conf :: "sample \<Rightarrow> string \<times> real" where
  "label_conf s = (case s of (label, confidence, observed_at) \<Rightarrow> (label, confidence))"

subsection \<open>Notions used in the statements about smoothing\<close>

text \<open>The position of the first occurrence of \<open>x\<close> in \<open>xs\<close> (the length, if there is none).\<close>

definition first_index :: "'a list \<Rightarrow> 'a \<Rightarrow> nat" where
  "first_index xs x = length (takeWhile (\<lambda>y. y \<noteq> x) xs)"

text \<open>Controllers to evaluate the smoothing on.\<close>

definition with_history :: "sample list \<Rightarrow> controller" where
  "with_history h = init_controller\<lparr>detection_history := h\<rparr>"

text \<open>The labels of the samples that smoothing aggregates over, in their order.\<close>

definition window_labels :: "'a controller_scheme \<Rightarrow> real \<Rightarrow> string list" where
  "window_labels self now = map fst (recent_detections (detection_history self) now)"

section \<open>The camera window (camera_window/camera_window.py)\<close>

text \<open>
  The fields of \<open>CameraWindow\<close>. \<open>current_detection\<close> is \<open>None\<close> or the tuple
  \<open>(class_name, confidence)\<close>. The lock only serialises access and is left out.
\<close>

record camera_window =
  width :: int
  height :: int
  fps :: int
  w_is_running :: bool
  current_detection :: "(string \<times> real) option"
  font :: int
  font_scale :: real
  thickness :: int

text \<open>\<open>__init__\<close>; \<open>cv2.FONT_HERSHEY_SIMPLEX\<close> is the constant 0.\<close>

definition init_window :: "int \<Rightarrow> int \<Rightarrow> int \<Rightarrow> camera_window" where
  "init_window w h f =
     \<lparr> width = w, height = h, fps = f, w_is_running = False, current_detection = None,
       font = 0, font_scale = 0.7, thickness = 2 \<rparr>"

definition update_detection :: "camera_window \<Rightarrow> string \<Rightarrow> real \<Rightarrow> camera_window" where
  "update_detection self class_name confidence =
     self\<lparr>current_detection := Some (class_name, confidence)\<rparr>"

fun update_detections :: "camera_window \<Rightarrow> (string \<times> real) list \<Rightarrow> camera_window" where
  "update_detections self [] = self"
| "update_detections self ((class_name, confidence) # rest) =
     update_detections (update_detection self class_name confidence) rest"

text \<open>
  \<open>get_current_detection\<close>: \<open>self.current_detection.copy() if self.current_detection else
  None\<close>. A tuple of two elements is true in a condition, and a tuple has no attribute
  \<open>copy\<close>, so the first branch raises \<open>AttributeError\<close>.
\<close>

definition get_current_detection :: "camera_window \<Rightarrow> py_exn + (string \<times> real) option" where
  "get_current_detection self =
     (case current_detection self of
        Some stored \<Rightarrow> Inl AttributeError
      | None \<Rightarrow> Inr None)"

section \<open>Frames and the drawing library\<close>

text \<open>
  A frame is a reference to a mutable pixel buffer (a numpy array). The heap maps references
  to buffer contents; \<open>next_free\<close> is the first reference not yet allocated. The contents
  \<open>'b\<close> are opaque.
\<close>

type_synonym addr = nat
type_synonym point = "int \<times> int"
type_synonym colour = "int \<times> int \<times> int"

record 'b heap =
  cells :: "addr \<Rightarrow> 'b"
  next_free :: addr

text \<open>
  The operations of numpy, OpenCV and string formatting that the renderers call, as
  parameters: what they compute on the pixels is theirs, and they are taken not to raise.
  Each drawing operation gives the new contents of the one buffer it writes. \<open>np_shape\<close> is
  \<open>shape[:2]\<close>, height and width: a buffer is an image and has at least two dimensions.
  \<open>fmt_percent\<close> is the format \<open>.1%\<close> and \<open>fmt_int\<close> the default format of an integer.
\<close>

record 'b library =
  np_shape :: "'b \<Rightarrow> int \<times> int"
  cv_rectangle :: "'b \<Rightarrow> point \<Rightarrow> point \<Rightarrow> colour \<Rightarrow> int \<Rightarrow> 'b"
  cv_addWeighted :: "'b \<Rightarrow> real \<Rightarrow> 'b \<Rightarrow> real \<Rightarrow> real \<Rightarrow> 'b"
  cv_putText :: "'b \<Rightarrow> string \<Rightarrow> point \<Rightarrow> int \<Rightarrow> real \<Rightarrow> colour \<Rightarrow> int \<Rightarrow> 'b"
  cv_getTextSize :: "string \<Rightarrow> int \<Rightarrow> real \<Rightarrow> int \<Rightarrow> (int \<times> int) \<times> int"
  fmt_percent :: "real \<Rightarrow> string"
  fmt_int :: "int \<Rightarrow> string"

text \<open>\<open>frame.copy()\<close>: a new buffer with the same contents.\<close>

definition np_copy :: "'b heap \<Rightarrow> addr \<Rightarrow> 'b heap \<times> addr" where
  "np_copy h a =
     (h\<lparr>cells := (cells h)(next_free h := cells h a), next_free := Suc (next_free h)\<rparr>,
      next_free h)"

text \<open>A drawing call that writes the buffer it is given.\<close>

definition in_place :: "'b heap \<Rightarrow> addr \<Rightarrow> ('b \<Rightarrow> 'b) \<Rightarrow> 'b heap" where
  "in_place h a f = h\<lparr>cells := (cells h)(a := f (cells h a))\<rparr>"

text \<open>Python's \<open>int(x)\<close> on a float: truncation towards zero.\<close>

definition py_int :: "real \<Rightarrow> int" where
  "py_int x = (if x \<ge> 0 then \<lfloor>x\<rfloor> else \<lceil>x\<rceil>)"

section \<open>The overlay of the camera window\<close>

definition draw_confidence_bar ::
    "'b library \<Rightarrow> camera_window \<Rightarrow> 'b heap \<Rightarrow> addr \<Rightarrow> real \<Rightarrow> int \<Rightarrow> int \<Rightarrow> 'b heap" where
  "draw_confidence_bar lib self h frame confidence w ht =
     (let bar_width = 300;
          bar_height = 30;
          bar_x = w - bar_width - 20;
          bar_y = 20;
          h1 = in_place h frame (\<lambda>img. cv_rectangle lib img (bar_x, bar_y)
                 (bar_x + bar_width, bar_y + bar_height) (50, 50, 50) (- 1));
          confidence_width = py_int (real_of_int bar_width * confidence);
          bar_color = (if confidence > 0.7 then (0, 255, 0)
                       else if confidence > 0.5 then (0, 255, 255)
                       else (0, 0, 255));
          h2 = in_place h1 frame (\<lambda>img. cv_rectangle lib img (bar_x, bar_y)
                 (bar_x + confidence_width, bar_y + bar_height) bar_color (- 1));
          h3 = in_place h2 frame (\<lambda>img. cv_rectangle lib img (bar_x, bar_y)
                 (bar_x + bar_width, bar_y + bar_height) (255, 255, 255) 2);
          confidence_percent = fmt_percent lib confidence;
          text_size = fst (cv_getTextSize lib confidence_percent (font self) (font_scale self)
                 (thickness self));
          text_x = bar_x + (bar_width - fst text_size) div 2;
          text_y = bar_y + (bar_height + snd text_size) div 2
      in in_place h3 frame (\<lambda>img. cv_putText lib img confidence_percent (text_x, text_y)
           (font self) (font_scale self) (255, 255, 255) (thickness self)))"

definition draw_frame_info ::
    "'b library \<Rightarrow> camera_window \<Rightarrow> 'b heap \<Rightarrow> addr \<Rightarrow> int \<Rightarrow> int \<Rightarrow> 'b heap" where
  "draw_frame_info lib self h frame w ht =
     (let fps_text = ''FPS: '' @ fmt_int lib (fps self);
          resolution_text = ''Resolution: '' @ fmt_int lib w @ ''x'' @ fmt_int lib ht;
          info_y = ht - 20;
          h1 = in_place h frame (\<lambda>img. cv_putText lib img fps_text (w - 150, info_y)
                 (font self) 0.5 (255, 255, 255) 1)
      in in_place h1 frame (\<lambda>img. cv_putText lib img resolution_text (w - 150, info_y - 20)
           (font self) 0.5 (255, 255, 255) 1))"

text \<open>
  \<open>draw_confidence_overlay\<close>. The argument is \<open>None\<close> or a reference; on \<open>None\<close> the first
  statement, \<open>frame.copy()\<close>, raises \<open>AttributeError\<close>. The result is the heap after the
  call and the reference returned.
\<close>

definition draw_confidence_overlay ::
    "'b library \<Rightarrow> camera_window \<Rightarrow> 'b heap \<Rightarrow> addr option \<Rightarrow> py_exn + 'b heap \<times> addr" where
  "draw_confidence_overlay lib self h frame =
     (case frame of
        None \<Rightarrow> Inl AttributeError
      | Some f \<Rightarrow>
          (case np_copy h f of (h1, display_frame) \<Rightarrow>
          (case np_shape lib (cells h1 display_frame) of (ht, w) \<Rightarrow>
          (case (case current_detection self of
                   Some d \<Rightarrow> d
                 | None \<Rightarrow> (''No detection'', 0.0)) of (class_name, confidence) \<Rightarrow>
          (case np_copy h1 display_frame of (h2, overlay) \<Rightarrow>
           let text_area_height = 120;
               h3 = in_place h2 overlay (\<lambda>img. cv_rectangle lib img (10, 10)
                      (w - 10, text_area_height) (0, 0, 0) (- 1));
               h4 = in_place h3 display_frame (\<lambda>img. cv_addWeighted lib (cells h3 overlay) 0.7
                      img 0.3 0);
               detection_text = ''Object: '' @ class_name;
               confidence_text = ''Confidence: '' @ fmt_percent lib confidence;
               status_text = (if confidence > 0.5 then ''Status: DETECTED''
                              else ''Status: NO DETECTION'');
               text_color = (if confidence > 0.7 then (0, 255, 0)
                             else if confidence > 0.5 then (0, 255, 255)
                             else (0, 0, 255));
               h5 = in_place h4 display_frame (\<lambda>img. cv_putText lib img detection_text (20, 35)
                      (font self) (font_scale self) text_color (thickness self));
               h6 = in_place h5 display_frame (\<lambda>img. cv_putText lib img confidence_text (20, 60)
                      (font self) (font_scale self) text_color (thickness self));
               h7 = in_place h6 display_frame (\<lambda>img. cv_putText lib img status_text (20, 85)
                      (font self) (font_scale self) text_color (thickness self));
               h8 = draw_confidence_bar lib self h7 display_frame confidence w ht;
               h9 = draw_frame_info lib self h8 display_frame w ht
           in Inr (h9, display_frame))))))"

section \<open>The overlay of the main controller\<close>


text \<open>
  A library and a heap to run the renderers on: a buffer is a list of rows of pixels, and
  the drawing operations leave the pixels as they are.
\<close>

type_synonym pixels = "colour list list"

definition plain_library :: "pixels library" where
  "plain_library =
     \<lparr> np_shape = (\<lambda>img. (int (length img), (case img of [] \<Rightarrow> 0 | row # _ \<Rightarrow> int (length row)))),
       cv_rectangle = (\<lambda>img p q c t. img),
       cv_addWeighted = (\<lambda>a x b y g. b),
       cv_putText = (\<lambda>img s p f fs c t. img),
       cv_getTextSize = (\<lambda>s f fs t. ((0, 0), 0)),
       fmt_percent = (\<lambda>x. []),
       fmt_int = (\<lambda>i. []) \<rparr>"

definition one_frame_heap :: "pixels heap" where
  "one_frame_heap = \<lparr> cells = (\<lambda>a. [[(1, 2, 3)]]), next_free = 1 \<rparr>"

section \<open>The classifier (model/model_loader.py)\<close>

text \<open>
  \<open>ModelLoader\<close>: whether the interpreter is set, and the labels. \<open>predict\<close> returns a fixed
  pair when there is no interpreter; otherwise it runs preprocessing and the interpreter
  inside \<open>try\<close>, and \<open>except Exception\<close> turns any failure there into the pair
  \<open>("Error", 0.0)\<close>. The outcome of the steps inside \<open>try\<close> is an argument: an exception, or
  the index of the largest output and its value.
\<close>

record model_loader =
  interpreter_set :: bool
  labels :: "string list"

definition is_loaded :: "model_loader \<Rightarrow> bool" where
  "is_loaded self = interpreter_set self"

definition predict :: "model_loader \<Rightarrow> py_exn + nat \<times> real \<Rightarrow> py_exn + string \<times> real" where
  "predict self inference =
     (if \<not> interpreter_set self then Inr (''Model not loaded'', 0.0)
      else
        (case inference of
           Inl e \<Rightarrow> (if is_Exception e then Inr (''Error'', 0.0) else Inl e)
         | Inr (predicted_class_idx, confidence) \<Rightarrow>
             Inr (if predicted_class_idx < length (labels self)
                  then labels self ! predicted_class_idx
                  else ''Unknown'',
                  confidence)))"

section \<open>The detection loop (main_controller.py)\<close>

text \<open>
  The state of \<open>run_detection_loop\<close>: the fields of the controller, the local variables
  \<open>frame_count\<close> and \<open>last_detection_time\<close>, and one observation that the code does not
  store: \<open>predict_times\<close>, the values of \<open>current_time\<close> of the iterations that called
  \<open>self.model.predict\<close>, the latest first.
\<close>

record loop_state = controller +
  model :: "model_loader option"
  is_running :: bool
  camera_window :: "camera_window option"
  show_camera_window :: bool
  frame_count :: nat
  last_detection_time :: real
  predict_times :: "real list"

text \<open>
  What the environment answers during one iteration: the result of each call that leaves
  the controller, and the clock at each reading. \<open>'f\<close> is the type of frames, which the loop
  only passes on.
  \<^item> \<open>tick_frame\<close>: \<open>self.camera.get_latest_frame()\<close>, an exception, \<open>None\<close> or a frame;
  \<^item> \<open>tick_time\<close>: \<open>time.time()\<close> of line 279;
  \<^item> \<open>tick_inference\<close>: the steps inside \<open>try\<close> in \<open>predict\<close>;
  \<^item> \<open>tick_stamp\<close>: \<open>time.time()\<close> inside \<open>update_detection_history\<close>;
  \<^item> \<open>tick_smooth_time\<close>: \<open>time.time()\<close> inside \<open>get_smoothed_detection\<close>;
  \<^item> \<open>tick_render\<close>: \<open>draw_detection_info\<close> and \<open>cv2.imshow\<close>, \<open>None\<close> if they return;
  \<^item> \<open>tick_key\<close>: \<open>cv2.waitKey(1) & 0xFF\<close>;
  \<^item> \<open>tick_save\<close>: the statements that save the frame after the key \<open>s\<close>.
\<close>

record 'f tick =
  tick_frame :: "py_exn + 'f option"
  tick_time :: real
  tick_inference :: "py_exn + nat \<times> real"
  tick_stamp :: real
  tick_smooth_time :: real
  tick_render :: "py_exn option"
  tick_key :: "py_exn + nat"
  tick_save :: "py_exn option"

definition detection_interval :: real where
  "detection_interval = 0.5"

text \<open>
  Lines 282 to 294: the throttled inference. The result is the state reached and the
  exception that left the block, if any.
\<close>

definition run_inference :: "loop_state \<Rightarrow> 'f tick \<Rightarrow> loop_state \<times> py_exn option" where
  "run_inference self t =
     (let current_time = tick_time t in
      if current_time - last_detection_time self \<ge> detection_interval then
        (case model self of
           None \<Rightarrow> (self, None)
         | Some m \<Rightarrow>
             if \<not> is_loaded m then (self, None)
             else
               let called = self\<lparr>predict_times := current_time # predict_times self\<rparr> in
               (case predict m (tick_inference t) of
                  Inl e \<Rightarrow> (called, Some e)
                | Inr (class_name, confidence) \<Rightarrow>
                    let s1 = update_detection_history called class_name confidence (tick_stamp t);
                        s2 = (case camera_window s1 of
                                Some w \<Rightarrow>
                                  if show_camera_window s1
                                  then s1\<lparr>camera_window := Some (update_detection w class_name confidence)\<rparr>
                                  else s1
                              | None \<Rightarrow> s1)
                    in (s2\<lparr>last_detection_time := current_time\<rparr>, None)))
      else (self, None))"

text \<open>
  Lines 296 to 319: smoothing, drawing, display and the keyboard. Key 113 is \<open>ord('q')\<close> and
  115 is \<open>ord('s')\<close>. What is drawn does not reach the state; the drawing and display calls
  count only by whether they raise.
\<close>

definition show_frame :: "loop_state \<Rightarrow> 'f tick \<Rightarrow> loop_state \<times> py_exn option" where
  "show_frame self t =
     (case get_smoothed_detection self (tick_smooth_time t) of
        (s, Inl e) \<Rightarrow> (s, Some e)
      | (s, Inr (display_class, display_confidence)) \<Rightarrow>
          (case tick_render t of
             Some e \<Rightarrow> (s, Some e)
           | None \<Rightarrow>
               (case tick_key t of
                  Inl e \<Rightarrow> (s, Some e)
                | Inr k \<Rightarrow>
                    if k = 113 then (s\<lparr>is_running := False, frame_count := frame_count s + 1\<rparr>, None)
                    else if k = 115 then
                      (case tick_save t of
                         Some e \<Rightarrow> (s, Some e)
                       | None \<Rightarrow> (s\<lparr>frame_count := frame_count s + 1\<rparr>, None))
                    else (s\<lparr>frame_count := frame_count s + 1\<rparr>, None))))"

text \<open>The body of \<open>try\<close>: lines 272 to 319.\<close>

definition loop_body :: "loop_state \<Rightarrow> 'f tick \<Rightarrow> loop_state \<times> py_exn option" where
  "loop_body self t =
     (case tick_frame t of
        Inl e \<Rightarrow> (self, Some e)
      | Inr None \<Rightarrow> (self, None)
      | Inr (Some frame) \<Rightarrow>
          (case run_inference self t of
             (s, Some e) \<Rightarrow> (s, Some e)
           | (s, None) \<Rightarrow> show_frame s t))"

text \<open>
  The two handlers: \<open>KeyboardInterrupt\<close> clears \<open>is_running\<close>; any \<open>Exception\<close> is printed
  and the loop sleeps.
\<close>

definition on_exception :: "loop_state \<Rightarrow> py_exn \<Rightarrow> loop_state" where
  "on_exception self e = (if is_Exception e then self else self\<lparr>is_running := False\<rparr>)"

text \<open>One iteration of \<open>while self.is_running\<close>.\<close>

definition iteration :: "loop_state \<Rightarrow> 'f tick \<Rightarrow> loop_state" where
  "iteration self t =
     (case loop_body self t of
        (s, None) \<Rightarrow> s
      | (s, Some e) \<Rightarrow> on_exception s e)"

text \<open>
  The loop over the answers of the environment for its first iterations, as far as they are
  given: it stops before an iteration when \<open>is_running\<close> is false.
\<close>

fun iterations :: "loop_state \<Rightarrow> 'f tick list \<Rightarrow> loop_state" where
  "iterations self [] = self"
| "iterations self (t # ts) = (if is_running self then iterations (iteration self t) ts else self)"

text \<open>\<open>run_detection_loop\<close> up to the end of its loop: the initial assignments, then the loop.\<close>

definition run_detection_loop :: "loop_state \<Rightarrow> 'f tick list \<Rightarrow> loop_state" where
  "run_detection_loop self ts =
     iterations (self\<lparr>is_running := True, frame_count := 0, last_detection_time := 0,
                     predict_times := []\<rparr>) ts"

text \<open>Successive calls of \<open>predict\<close>, latest first, are at least the interval apart.\<close>

fun spaced :: "real list \<Rightarrow> bool" where
  "spaced (a # b # rest) = (a - b \<ge> detection_interval \<and> spaced (b # rest))"
| "spaced _ = True"

text \<open>A controller as \<open>__init__\<close> and \<open>initialize_model\<close> leave it, with two labels.\<close>

definition ready_controller :: loop_state where
  "ready_controller =
     \<lparr> confidence_threshold = 0.5, detection_history = [], max_history = 10,
       model = Some \<lparr> interpreter_set = True, labels = [''cat'', ''dog''] \<rparr>,
       is_running = False, camera_window = None, show_camera_window = False,
       frame_count = 0, last_detection_time = 0, predict_times = [] \<rparr>"

text \<open>An iteration at time \<open>now\<close> in which every call succeeds and no key is pressed.\<close>

definition quiet_tick :: "real \<Rightarrow> unit tick" where
  "quiet_tick now =
     \<lparr> tick_frame = Inr (Some ()), tick_time = now, tick_inference = Inr (0, 0.9),
       tick_stamp = now, tick_smooth_time = now, tick_render = None, tick_key = Inr 255,
       tick_save = None \<rparr>"

section \<open>The display loop of the camera window (camera_window/camera_window.py)\<close>

text \<open>
  The state of \<open>run_window\<close> after \<open>start_camera\<close>: the window object, the heap of frames and
  the local counters. In one iteration the environment answers with the result of
  \<open>get_latest_frame\<close> (an exception, \<open>None\<close>, or the contents of the copy it returns), of
  \<open>imshow\<close>, of \<open>waitKey\<close> and of \<open>imwrite\<close>, and with the clock of line 247.
\<close>

record 'b window_loop =
  wl_self :: camera_window
  wl_heap :: "'b heap"
  wl_frame_count :: nat
  wl_fps_counter :: nat
  wl_last_fps_time :: real

record 'b window_tick =
  wt_frame :: "py_exn + 'b option"
  wt_show :: "py_exn option"
  wt_key :: "py_exn + nat"
  wt_save :: "py_exn option"
  wt_time :: real

text \<open>A new buffer with the given contents.\<close>

definition np_new :: "'b heap \<Rightarrow> 'b \<Rightarrow> 'b heap \<times> addr" where
  "np_new h c =
     (h\<lparr>cells := (cells h)(next_free h := c), next_free := Suc (next_free h)\<rparr>, next_free h)"

text \<open>The body of \<open>try\<close>, lines 221 to 252.\<close>

definition window_body ::
    "'b library \<Rightarrow> 'b window_loop \<Rightarrow> 'b window_tick \<Rightarrow> 'b window_loop \<times> py_exn option" where
  "window_body lib st t =
     (case wt_frame t of
        Inl e \<Rightarrow> (st, Some e)
      | Inr None \<Rightarrow> (st, None)
      | Inr (Some contents) \<Rightarrow>
          (case np_new (wl_heap st) contents of (h1, frame) \<Rightarrow>
          (case draw_confidence_overlay lib (wl_self st) h1 (Some frame) of
             Inl e \<Rightarrow> (st\<lparr>wl_heap := h1\<rparr>, Some e)
           | Inr (h2, display_frame) \<Rightarrow>
               let s1 = st\<lparr>wl_heap := h2\<rparr> in
               (case wt_show t of
                  Some e \<Rightarrow> (s1, Some e)
                | None \<Rightarrow>
                    (case wt_key t of
                       Inl e \<Rightarrow> (s1, Some e)
                     | Inr k \<Rightarrow>
                         (case (if k = 113
                                then Inr (s1\<lparr>wl_self := (wl_self s1)\<lparr>w_is_running := False\<rparr>\<rparr>)
                                else if k = 115
                                then (case wt_save t of Some e \<Rightarrow> Inl e | None \<Rightarrow> Inr s1)
                                else Inr s1) of
                            Inl e \<Rightarrow> (s1, Some e)
                          | Inr s2 \<Rightarrow>
                              let s3 = s2\<lparr>wl_frame_count := wl_frame_count s2 + 1,
                                          wl_fps_counter := wl_fps_counter s2 + 1\<rparr>;
                                  current_time = wt_time t
                              in if current_time - wl_last_fps_time s3 \<ge> 1.0
                                 then (s3\<lparr>wl_fps_counter := 0, wl_last_fps_time := current_time\<rparr>,
                                       None)
                                 else (s3, None)))))))"

text \<open>One iteration of \<open>while self.is_running\<close> in \<open>run_window\<close>, with its two handlers.\<close>

definition window_iteration ::
    "'b library \<Rightarrow> 'b window_loop \<Rightarrow> 'b window_tick \<Rightarrow> 'b window_loop" where
  "window_iteration lib st t =
     (case window_body lib st t of
        (s, None) \<Rightarrow> s
      | (s, Some e) \<Rightarrow>
          if is_Exception e then s else s\<lparr>wl_self := (wl_self s)\<lparr>w_is_running := False\<rparr>\<rparr>)"

section \<open>Notions used in the statements about the detection loop\<close>

text \<open>
  An iteration is calm if none of its calls is interrupted from the keyboard and the key read
  is not \<open>q\<close>. Any other exception may occur in it.
\<close>

definition calm :: "'f tick \<Rightarrow> bool" where
  "calm t =
     (tick_frame t \<noteq> Inl KeyboardInterrupt \<and> tick_inference t \<noteq> Inl KeyboardInterrupt
      \<and> tick_render t \<noteq> Some KeyboardInterrupt \<and> tick_key t \<noteq> Inl KeyboardInterrupt
      \<and> tick_key t \<noteq> Inr 113 \<and> tick_save t \<noteq> Some KeyboardInterrupt)"

text \<open>
  The invariant of the throttle for iterations at the times \<open>t0 + 0.05 * k\<close>: before
  iteration \<open>n\<close>, the latest call of \<open>predict\<close> was made in an iteration \<open>j < n\<close>, at least ten
  iterations for each earlier call lie before it, and a running loop remembers its time.
\<close>

definition throttled :: "real \<Rightarrow> nat \<Rightarrow> loop_state \<Rightarrow> bool" where
  "throttled t0 n s =
     (predict_times s = [] \<or>
      (\<exists>j<n. 10 * (length (predict_times s) - 1) \<le> j \<and>
         (is_running s \<longrightarrow> last_detection_time s = t0 + real j * 0.05)))"

text \<open>A running controller, and iterations in which one collaborator fails.\<close>

definition running_controller :: loop_state where
  "running_controller = ready_controller\<lparr>is_running := True\<rparr>"

definition frame_failure :: "unit tick" where
  "frame_failure = (quiet_tick 1000)\<lparr>tick_frame := Inl OtherException\<rparr>"

definition inference_failure :: "unit tick" where
  "inference_failure = (quiet_tick 1000)\<lparr>tick_inference := Inl OtherException\<rparr>"

definition render_failure :: "unit tick" where
  "render_failure = (quiet_tick 1000)\<lparr>tick_render := Some OtherException\<rparr>"

text \<open>Forty iterations, one every 0.05 seconds from time 1000 on.\<close>

definition forty_ticks :: "unit tick list" where
  "forty_ticks = map (\<lambda>k. quiet_tick (1000 + real k * 0.05)) [0..<40]"

text \<open>The same run with one more iteration, at time 1002.\<close>

definition forty_one_ticks :: "unit tick list" where
  "forty_one_ticks = forty_ticks @ [quiet_tick 1002]"

chapter \<open>Properties\<close>

section \<open>The history buffer\<close>

lemma update_keeps_max [simp]:
  "max_history (update_detection_history self c p t) = max_history self"
  by (simp add: update_detection_history_def Let_def)

lemma update_length:
  "length (detection_history self) \<le> max_history self \<Longrightarrow>
   length (detection_history (update_detection_history self c p t)) \<le> max_history self"
  by (auto simp: update_detection_history_def Let_def)

lemma appends_keeps_max [simp]: "max_history (appends self xs) = max_history self"
  by (induction self xs rule: appends.induct) simp_all

lemma appends_drop:
  "length (detection_history self) \<le> max_history self \<Longrightarrow>
   detection_history (appends self xs) =
     drop (length (detection_history self) + length xs - max_history self)
       (detection_history self @ xs)"
proof (induction xs arbitrary: self)
  case Nil
  then show ?case by simp
next
  case (Cons x xs)
  obtain c p t where x: "x = (c, p, t)" by (cases x)
  let ?s = "update_detection_history self c p t"
  let ?h = "detection_history self"
  have "length (detection_history ?s) \<le> max_history ?s"
    using update_length[OF Cons.prems] by simp
  note ih = Cons.IH[OF this]
  show ?case
  proof (cases "Suc (length ?h) \<le> max_history self")
    case True
    then have "detection_history ?s = ?h @ [x]"
      by (simp add: update_detection_history_def Let_def x)
    then show ?thesis using ih True unfolding x by simp
  next
    case False
    then have n: "length ?h = max_history self" using Cons.prems by simp
    have "detection_history ?s = tl (?h @ [x])"
      using False by (simp add: update_detection_history_def Let_def x)
    then have "detection_history ?s @ xs = tl (?h @ x # xs)"
      by (cases ?h) simp_all
    moreover have "length (detection_history ?s) = max_history self"
      using False n by (simp add: update_detection_history_def Let_def x)
    ultimately show ?thesis using ih n unfolding x
      by (simp add: drop_Suc Suc_diff_le del: drop_append)
  qed
qed

text \<open>
  Claim C5. Start from any controller with an empty history and make any sequence \<open>xs\<close> of
  calls of \<open>update_detection_history\<close>. The history is then never longer than
  \<open>max_history\<close>, which no call changes and which \<open>__init__\<close> sets to 10; it holds the last
  \<open>max_history\<close> samples of \<open>xs\<close> in their order; and one more call appends its sample and,
  exactly when the history is full, removes the head, which is the oldest sample.
\<close>

theorem history_bounded_fifo:
  "length (detection_history (appends (self\<lparr>detection_history := []\<rparr>) xs)) \<le> max_history self
   \<and> max_history (appends (self\<lparr>detection_history := []\<rparr>) xs) = max_history self
   \<and> detection_history (appends (self\<lparr>detection_history := []\<rparr>) xs) =
       drop (length xs - max_history self) xs
   \<and> detection_history
        (update_detection_history (appends (self\<lparr>detection_history := []\<rparr>) xs) c p t) =
       (if length (detection_history (appends (self\<lparr>detection_history := []\<rparr>) xs)) =
             max_history self
        then tl (detection_history (appends (self\<lparr>detection_history := []\<rparr>) xs) @ [(c, p, t)])
        else detection_history (appends (self\<lparr>detection_history := []\<rparr>) xs) @ [(c, p, t)])
   \<and> max_history init_controller = 10 \<and> detection_history init_controller = []"
proof -
  let ?s = "appends (self\<lparr>detection_history := []\<rparr>) xs"
  have d: "detection_history ?s = drop (length xs - max_history self) xs"
    using appends_drop[of "self\<lparr>detection_history := []\<rparr>" xs] by simp
  have l: "length (detection_history ?s) \<le> max_history self"
    unfolding d by simp
  have u: "detection_history (update_detection_history ?s c p t) =
       (if length (detection_history ?s) = max_history self
        then tl (detection_history ?s @ [(c, p, t)])
        else detection_history ?s @ [(c, p, t)])"
    using l by (simp add: update_detection_history_def Let_def)
  show ?thesis
    using d l u by (simp add: init_controller_def)
qed

section \<open>The window of the smoothing\<close>

lemma recent_Nil [simp]: "recent_detections [] t = []"
  by (simp add: recent_detections_def)

lemma recent_Cons [simp]:
  "recent_detections ((n, c, ts) # h) t =
     (if t - ts < 2 then (n, c) # recent_detections h t else recent_detections h t)"
  by (simp add: recent_detections_def)

lemma recent_younger:
  "recent_detections h t = map label_conf (snapshot_younger 2 t h)"
  by (induction h) (auto simp: label_conf_def snapshot_younger_def)

lemma recent_empty_iff:
  "recent_detections h t = [] \<longleftrightarrow> (\<forall>s\<in>set h. \<not> t - snd (snd s) < 2)"
  by (induction h) (auto split: if_splits)

subsection \<open>Rounding, and the doubles of the scenario\<close>

lemma bit_length_0: "bit_length 0 = 0"
  by (simp add: bit_length.simps)

lemma bit_length_1: "bit_length (Suc 0) = 1"
  by (simp add: bit_length.simps)

lemma bit_length_numeral: "bit_length (numeral n) = Suc (bit_length (numeral n div 2))"
  by (subst bit_length.simps) simp

text \<open>
  The rounding is the one described: \<open>exponent\<close> gives the power of two at or below the
  magnitude, and the double returned is a multiple of \<open>2\<^sup>e\<^sup>-\<^sup>5\<^sup>2\<close> at most half of it away.
\<close>

lemma bit_length_bounds:
  "n > 0 \<Longrightarrow> (2::nat) ^ (bit_length n - 1) \<le> n \<and> n < 2 ^ bit_length n"
proof (induction n rule: bit_length.induct)
  case (1 n)
  show ?case
  proof (cases "n div 2 = 0")
    case True
    then have "n = 1" using 1 by linarith
    then show ?thesis by (simp add: bit_length_0 bit_length_1)
  next
    case False
    then have ih: "(2::nat) ^ (bit_length (n div 2) - 1) \<le> n div 2" "n div 2 < 2 ^ bit_length (n div 2)"
      using 1 by auto
    have pos: "bit_length (n div 2) > 0" using False by (subst bit_length.simps) simp
    have b: "bit_length n = Suc (bit_length (n div 2))" using 1(2) by (subst bit_length.simps) simp
    have "(2::nat) ^ (bit_length n - 1) = 2 * 2 ^ (bit_length (n div 2) - 1)"
      unfolding b using pos by (cases "bit_length (n div 2)") simp_all
    then have l: "(2::nat) ^ (bit_length n - 1) \<le> n" using ih(1) by linarith
    have "n < 2 * 2 ^ bit_length (n div 2)" using ih(2) by linarith
    then show ?thesis using l unfolding b by simp
  qed
qed

lemma bit_length_pos: "n > 0 \<Longrightarrow> bit_length n > 0"
  by (subst bit_length.simps) simp

lemma exponent_bounds:
  assumes "x \<noteq> 0"
  shows "pow2 (exponent x) \<le> \<bar>x\<bar> \<and> \<bar>x\<bar> < pow2 (exponent x + 1)"
proof (cases "\<bar>x\<bar> \<ge> 1")
  case True
  define n where "n = nat \<lfloor>\<bar>x\<bar>\<rfloor>"
  have n1: "n > 0" unfolding n_def using True by linarith
  have nx: "real n \<le> \<bar>x\<bar>" "\<bar>x\<bar> < real n + 1" unfolding n_def using True by linarith+
  have e: "exponent x = int (bit_length n) - 1" using True by (simp add: exponent_def n_def)
  have bl: "bit_length n > 0" using n1 by (rule bit_length_pos)
  from bit_length_bounds[OF n1] have b: "(2::nat) ^ (bit_length n - 1) \<le> n" "n < 2 ^ bit_length n" by auto
  have p1: "pow2 (exponent x) = 2 ^ (bit_length n - 1)"
    unfolding e pow2_def using bl by (simp add: nat_diff_distrib)
  have p2: "pow2 (exponent x + 1) = 2 ^ bit_length n"
    unfolding e pow2_def by simp
  have r1: "(2::real) ^ (bit_length n - 1) \<le> real n"
    using of_nat_mono[OF b(1), where 'a = real] by simp
  have "Suc n \<le> 2 ^ bit_length n" using b(2) by simp
  from of_nat_mono[OF this, where 'a = real]
  have r2: "real n + 1 \<le> (2::real) ^ bit_length n" by simp
  show ?thesis unfolding p1 p2 using nx r1 r2 by linarith
next
  case False
  define y where "y = 1 / \<bar>x\<bar>"
  have y1: "y > 1" unfolding y_def using False assms by simp
  define m where "m = nat (\<lceil>y\<rceil> - 1)"
  have m1: "m > 0" unfolding m_def using y1 by linarith
  have my: "real m < y" "y \<le> real m + 1" unfolding m_def using y1 by linarith+
  have e: "exponent x = - int (bit_length m)" using False by (simp add: exponent_def m_def y_def)
  have bl: "bit_length m > 0" using m1 by (rule bit_length_pos)
  from bit_length_bounds[OF m1] have b: "(2::nat) ^ (bit_length m - 1) \<le> m" "m < 2 ^ bit_length m" by auto
  have p1: "pow2 (exponent x) = 1 / 2 ^ bit_length m"
    unfolding e pow2_def using bl by simp
  have p2: "pow2 (exponent x + 1) = 1 / 2 ^ (bit_length m - 1)"
    unfolding e pow2_def using bl by (auto simp: nat_diff_distrib) 
  have "(2::real) ^ (bit_length m - 1) \<le> real m"
    using of_nat_mono[OF b(1), where 'a = real] by simp
  then have lo: "(2::real) ^ (bit_length m - 1) < y" using my(1) by linarith
  have "Suc m \<le> 2 ^ bit_length m" using b(2) by simp
  from of_nat_mono[OF this, where 'a = real]
  have "real m + 1 \<le> (2::real) ^ bit_length m" by simp
  then have hi: "y \<le> (2::real) ^ bit_length m" using my(2) by linarith
  have xy: "\<bar>x\<bar> = 1 / y" unfolding y_def by simp
  have "1 / 2 ^ bit_length m \<le> 1 / y" using hi y1 by (simp add: frac_le)
  moreover have "1 / y < 1 / 2 ^ (bit_length m - 1)" using lo by (simp add: frac_less2)
  ultimately show ?thesis unfolding p1 p2 xy by simp
qed

lemma round_half_even_near: "\<bar>real_of_int (round_half_even q) - q\<bar> \<le> 1 / 2"
  unfolding round_half_even_def Let_def by (auto; linarith)

lemma pow2_pos: "pow2 k > 0"
  by (simp add: pow2_def)

lemma round_double_near:
  "\<bar>round_double x - x\<bar> \<le> pow2 (exponent x - 52) / 2"
proof (cases "x = 0")
  case True
  then show ?thesis using pow2_pos[of "exponent x - 52"] by (simp add: round_double_def)
next
  case False
  let ?u = "pow2 (exponent x - 52)"
  have u: "?u > 0" by (rule pow2_pos)
  have "\<bar>real_of_int (round_half_even (x / ?u)) - x / ?u\<bar> \<le> 1 / 2" by (rule round_half_even_near)
  then have "\<bar>real_of_int (round_half_even (x / ?u)) - x / ?u\<bar> * ?u \<le> 1 / 2 * ?u"
    using u by (simp add: mult_right_mono)
  moreover have "\<bar>real_of_int (round_half_even (x / ?u)) - x / ?u\<bar> * ?u = \<bar>real_of_int (round_half_even (x / ?u)) * ?u - x\<bar>"
  proof -
    have "\<bar>real_of_int (round_half_even (x / ?u)) - x / ?u\<bar> * ?u
        = \<bar>(real_of_int (round_half_even (x / ?u)) - x / ?u) * ?u\<bar>"
      using u by (simp add: abs_mult)
    also have "(real_of_int (round_half_even (x / ?u)) - x / ?u) * ?u
        = real_of_int (round_half_even (x / ?u)) * ?u - x"
      using u by (simp add: left_diff_distrib)
    finally show ?thesis .
  qed
  ultimately show ?thesis using False by (simp add: round_double_def Let_def)
qed

lemmas double_unfold =
  py_float_def round_double_def exponent_def round_half_even_def pow2_def Let_def
  bit_length_0 bit_length_1 bit_length_numeral

text \<open>
  The doubles that the literals 0.9, 0.8, 0.95 and 0.85 denote, the sum of the first two,
  which is a tie and rounds up to the even significand, and its half.
\<close>

lemma double_09: "py_float 0.9 = 8106479329266893 / 2 ^ 53"
  by (simp add: double_unfold)

lemma double_08: "py_float 0.8 = 7205759403792794 / 2 ^ 53"
  by (simp add: double_unfold)

lemma double_095: "py_float 0.95 = 8556839292003942 / 2 ^ 53"
  by (simp add: double_unfold)

lemma double_085: "py_float 0.85 = 7656119366529843 / 2 ^ 53"
  by (simp add: double_unfold)

lemma double_085_next: "py_float 0.8500000000000001 = 7656119366529844 / 2 ^ 53"
  by (simp add: double_unfold)

lemma double_sum: "fadd (py_float 0.9) (py_float 0.8) = 7656119366529844 / 2 ^ 52"
  unfolding double_09 double_08 by (simp add: fadd_def double_unfold)

lemma double_first: "fadd 0 (py_float 0.9) = py_float 0.9"
  unfolding double_09 by (simp add: fadd_def double_unfold)

lemma double_mean: "fdiv (fadd (py_float 0.9) (py_float 0.8)) 2 = 7656119366529844 / 2 ^ 53"
  unfolding double_sum by (simp add: fdiv_def double_unfold)

lemma scenario_result:
  "snd (get_smoothed_detection
          (appends (init_controller\<lparr>max_history := 3\<rparr>)
             [(''A'', py_float 0.9, 0), (''A'', py_float 0.8, 0.5), (''B'', py_float 0.95, 1.0)]) 1.0)
     = Inr (''A'', fdiv (fadd (py_float 0.9) (py_float 0.8)) 2)"
  by (simp add: get_smoothed_detection_def init_controller_def update_detection_history_def
      recent_detections_def class_counts_of_def py_max_def dict_get_def average_def
      double_first)

text \<open>
  Claim C1, as the specification words it, fails in the last digit: the confidence returned
  is not the float 0.85. The sum of the floats 0.9 and 0.8 lies exactly between two doubles
  and is rounded up, to 1.7000000000000002, and its half is the double next above 0.85.
\<close>

theorem scenario_confidence_not_085:
  "snd (get_smoothed_detection
          (appends (init_controller\<lparr>max_history := 3\<rparr>)
             [(''A'', py_float 0.9, 0), (''A'', py_float 0.8, 0.5), (''B'', py_float 0.95, 1.0)]) 1.0)
     \<noteq> Inr (''A'', py_float 0.85)
   \<and> snd (get_smoothed_detection
          (appends (init_controller\<lparr>max_history := 3\<rparr>)
             [(''A'', py_float 0.9, 0), (''A'', py_float 0.8, 0.5), (''B'', py_float 0.95, 1.0)]) 1.0)
     \<noteq> Inr (''A'', 0.85)"
  unfolding scenario_result double_mean double_085 by simp

text \<open>
  Claim C1, amended. A controller with capacity 3 receives the samples (A, 0.9) at time 0,
  (A, 0.8) at time 0.5 and (B, 0.95) at time 1.0. Smoothing at time 1.0 returns the label A,
  which has two votes to one, with the confidence 0.8500000000000001: the mean, in float
  arithmetic, of the confidences 0.9 and 0.8 of the samples of A alone, which is the double
  next above 0.85.
\<close>

theorem scenario_majority_A:
  "snd (get_smoothed_detection
          (appends (init_controller\<lparr>max_history := 3\<rparr>)
             [(''A'', py_float 0.9, 0), (''A'', py_float 0.8, 0.5), (''B'', py_float 0.95, 1.0)]) 1.0)
     = Inr (''A'', py_float 0.8500000000000001)
   \<and> py_float 0.8500000000000001 = fdiv (fadd (py_float 0.9) (py_float 0.8)) 2
   \<and> py_float 0.8500000000000001 = py_float 0.85 + 1 / 2 ^ 53"
  unfolding scenario_result double_mean double_085 double_085_next by simp

text \<open>
  Claim C4. If no sample of the history is younger than two seconds at time \<open>now\<close>, and so
  in particular if the history is empty or every sample lies before \<open>now - 2\<close>, smoothing
  returns the pair ("No detection", 0.0).
\<close>

theorem empty_window_no_detection:
  assumes "\<forall>s\<in>set (detection_history self). \<not> now - snd (snd s) < 2"
  shows "snd (get_smoothed_detection self now) = Inr (''No detection'', 0.0)"
  using assms recent_empty_iff[of "detection_history self" now]
  by (simp add: get_smoothed_detection_def Let_def)

theorem empty_window_no_detection_witness:
  "snd (get_smoothed_detection (with_history [(''A'', 0.9, 0), (''B'', 0.8, 1)]) 5)
     = Inr (''No detection'', 0.0)
   \<and> snd (get_smoothed_detection (with_history []) 5) = Inr (''No detection'', 0.0)"
proof (rule conjI)
  show "snd (get_smoothed_detection (with_history [(''A'', 0.9, 0), (''B'', 0.8, 1)]) 5)
     = Inr (''No detection'', 0.0)"
    by (rule empty_window_no_detection) (simp add: with_history_def)
  show "snd (get_smoothed_detection (with_history []) 5) = Inr (''No detection'', 0.0)"
    by (rule empty_window_no_detection) (simp add: with_history_def)
qed

text \<open>
  Claim C3, as the specification words it, fails at the boundary: a sample that is exactly
  two seconds old belongs to the specified snapshot (\<open>observed_at \<ge> now - window_seconds\<close>),
  but the code keeps a sample only if \<open>current_time - timestamp < 2.0\<close>.
\<close>

theorem boundary_sample_dropped:
  "recent_detections [(''A'', 0.9, 0)] 2 \<noteq> map label_conf (snapshot_within 2 2 [(''A'', 0.9, 0)])"
  by (simp add: snapshot_within_def label_conf_def)

text \<open>
  Claim C3, amended. The samples that smoothing aggregates over are exactly those with
  \<open>observed_at > now - 2\<close> (a sample exactly two seconds old is left out), without their time
  stamps and in their original order; the result of smoothing depends on the history only
  through this list; and the call leaves the controller, and so the history, as it was.
\<close>

theorem window_is_open:
  "recent_detections (detection_history self) now =
      map label_conf (snapshot_younger 2 now (detection_history self))
   \<and> subseq (recent_detections (detection_history self) now)
        (map label_conf (detection_history self))
   \<and> (recent_detections (detection_history self) now =
        recent_detections (detection_history other) now'
      \<longrightarrow> snd (get_smoothed_detection self now) = snd (get_smoothed_detection other now'))
   \<and> fst (get_smoothed_detection self now) = self"
proof -
  have "subseq (map label_conf (snapshot_younger 2 now (detection_history self)))
          (map label_conf (detection_history self))"
    unfolding snapshot_younger_def by (intro subseq_map subseq_filter_left)
  moreover have "fst (get_smoothed_detection self now) = self"
    by (simp add: get_smoothed_detection_def Let_def split: sum.splits)
  moreover have "snd (get_smoothed_detection self now) = snd (get_smoothed_detection other now')"
    if "recent_detections (detection_history self) now =
        recent_detections (detection_history other) now'"
    using that recent_Nil
    by (cases "detection_history self = []"; cases "detection_history other = []")
       (simp_all add: get_smoothed_detection_def Let_def split: sum.splits)
  ultimately show ?thesis
    by (simp add: recent_younger)
qed

theorem window_is_open_witness:
  "recent_detections (detection_history (with_history [(''A'', 0.9, 0), (''B'', 0.5, 1)])) 2.5 =
     recent_detections (detection_history (with_history [(''B'', 0.5, 7)])) 8
   \<and> snd (get_smoothed_detection (with_history [(''A'', 0.9, 0), (''B'', 0.5, 1)]) 2.5) =
     snd (get_smoothed_detection (with_history [(''B'', 0.5, 7)]) 8)"
proof -
  have h: "recent_detections (detection_history (with_history [(''A'', 0.9, 0), (''B'', 0.5, 1)])) 2.5 =
     recent_detections (detection_history (with_history [(''B'', 0.5, 7)])) 8"
    by (simp add: with_history_def)
  show ?thesis
    using h window_is_open[where self = "with_history [(''A'', 0.9, 0), (''B'', 0.5, 1)]"
        and now = "2.5" and other = "with_history [(''B'', 0.5, 7)]" and now' = 8]
    by blast
qed

section \<open>Counting and the majority label\<close>

lemma keys_count_class:
  "map fst (count_class cc n) = (if n \<in> fst ` set cc then map fst cc else map fst cc @ [n])"
  by (induction cc n rule: count_class.induct) auto

lemma keyset_count_class:
  "set (map fst (count_class cc n)) = insert n (set (map fst cc))"
  unfolding keys_count_class by auto

lemma distinct_count_class:
  "distinct (map fst cc) \<Longrightarrow> distinct (map fst (count_class cc n))"
  by (simp add: keys_count_class)

lemma get_count_class:
  "dict_get (count_class cc n) k = (if k = n then dict_get cc n + 1 else dict_get cc k)"
  by (induction cc n rule: count_class.induct) (auto simp: dict_get_def)

lemma dict_get_Nil: "dict_get [] k = 0"
  by (simp add: dict_get_def)

lemma get_fold:
  "dict_get (foldl count_class cc ns) k = dict_get cc k + count_list ns k"
  by (induction ns arbitrary: cc) (auto simp: get_count_class)

lemma distinct_fold:
  "distinct (map fst cc) \<Longrightarrow> distinct (map fst (foldl count_class cc ns))"
  by (induction ns arbitrary: cc) (auto simp: distinct_count_class)

lemma keys_fold_prefix:
  "\<exists>zs. map fst (foldl count_class cc ns) = map fst cc @ zs"
proof (induction ns arbitrary: cc)
  case Nil
  then show ?case by simp
next
  case (Cons n ns)
  obtain zs where
    "map fst (foldl count_class (count_class cc n) ns) = map fst (count_class cc n) @ zs"
    using Cons.IH by blast
  then show ?case by (auto simp: keys_count_class)
qed

lemma keys_fold_set:
  "set (map fst (foldl count_class cc ns)) = set (map fst cc) \<union> set ns"
proof (induction ns arbitrary: cc)
  case Nil
  then show ?case by simp
next
  case (Cons n ns)
  show ?case unfolding foldl_Cons Cons.IH keyset_count_class by auto
qed

text \<open>
  What \<open>max\<close> returns: an item with the greatest key, and every item before it has a
  strictly smaller key.
\<close>

lemma max_from_spec:
  "\<exists>pre post. best # xs = pre @ max_from key best xs # post
      \<and> (\<forall>x\<in>set pre. key x < key (max_from key best xs))
      \<and> (\<forall>x\<in>set post. key x \<le> key (max_from key best xs))"
proof (induction xs arbitrary: best)
  case Nil
  show ?case by (rule exI[of _ "[]"], rule exI[of _ "[]"]) simp
next
  case (Cons x xs)
  show ?case
  proof (cases "key x > key best")
    case True
    let ?m = "max_from key x xs"
    from Cons.IH[of x] obtain pre post where
      d: "x # xs = pre @ ?m # post"
      and p: "\<forall>y\<in>set pre. key y < key ?m"
      and q: "\<forall>y\<in>set post. key y \<le> key ?m" by blast
    have ge: "key x \<le> key ?m"
      using d p by (cases pre) auto
    have m: "max_from key best (x # xs) = ?m" using True by simp
    have "best # x # xs = (best # pre) @ ?m # post" using d by simp
    moreover have "\<forall>y\<in>set (best # pre). key y < key ?m" using p ge True by auto
    ultimately show ?thesis unfolding m using q by blast
  next
    case False
    let ?m = "max_from key best xs"
    from Cons.IH[of best] obtain pre post where
      d: "best # xs = pre @ ?m # post"
      and p: "\<forall>y\<in>set pre. key y < key ?m"
      and q: "\<forall>y\<in>set post. key y \<le> key ?m" by blast
    have m: "max_from key best (x # xs) = ?m" using False by simp
    show ?thesis
    proof (cases pre)
      case Nil
      then have "best # x # xs = [] @ ?m # (x # post)"
        and "\<forall>y\<in>set (x # post). key y \<le> key ?m"
        using d q False by auto
      then show ?thesis unfolding m by (metis empty_iff list.set(1))
    next
      case (Cons b pre')
      then have "best # x # xs = (best # x # pre') @ ?m # post"
        and "\<forall>y\<in>set (best # x # pre'). key y < key ?m"
        using d p False by auto
      then show ?thesis unfolding m using q by blast
    qed
  qed
qed

lemma distinct_split_unique:
  assumes "distinct (xs @ x # ys)" and "xs @ x # ys = xs' @ x # ys'"
  shows "xs = xs'"
proof -
  have "x \<notin> set xs" and "x \<notin> set ys" using assms(1) by simp_all
  then show ?thesis using assms(2) by (simp add: append_Cons_eq_iff)
qed

text \<open>The keys of the dict are the labels in the order of their first occurrences.\<close>

lemma keys_before_first:
  assumes "L \<notin> set pre"
  shows "\<exists>k1 zs. map fst (foldl count_class [] (pre @ L # post)) = k1 @ L # zs
           \<and> set k1 = set pre"
proof -
  let ?c1 = "foldl count_class [] pre"
  have s1: "set (map fst ?c1) = set pre" unfolding keys_fold_set by simp
  then have "map fst (count_class ?c1 L) = map fst ?c1 @ [L]"
    using assms by (simp add: keys_count_class)
  moreover obtain zs where
    "map fst (foldl count_class (count_class ?c1 L) post) = map fst (count_class ?c1 L) @ zs"
    using keys_fold_prefix by blast
  ultimately have "map fst (foldl count_class [] (pre @ L # post)) = map fst ?c1 @ L # zs"
    by simp
  then show ?thesis using s1 by blast
qed

lemma most_common_first:
  assumes ne: "names \<noteq> []"
  defines "cc \<equiv> foldl count_class [] names"
  shows "\<exists>L. py_max (dict_get cc) (map fst cc) = Inr L \<and> L \<in> set names
     \<and> (\<forall>l. count_list names l \<le> count_list names L)
     \<and> (\<forall>l. l \<noteq> L \<and> count_list names l = count_list names L
            \<longrightarrow> first_index names L < first_index names l)"
proof -
  have f: "dict_get cc k = count_list names k" for k
    by (simp add: cc_def get_fold dict_get_Nil)
  have ks: "set (map fst cc) = set names" unfolding cc_def keys_fold_set by simp
  have dk: "distinct (map fst cc)" unfolding cc_def by (rule distinct_fold) simp
  from ks ne obtain k0 ks' where k: "map fst cc = k0 # ks'" by (cases "map fst cc") auto
  define L where "L = max_from (dict_get cc) k0 ks'"
  have pm: "py_max (dict_get cc) (map fst cc) = Inr L" by (simp add: py_max_def k L_def)
  from max_from_spec[of k0 ks' "dict_get cc"] obtain kpre kpost where
    d: "map fst cc = kpre @ L # kpost"
    and p: "\<forall>x\<in>set kpre. count_list names x < count_list names L"
    and q: "\<forall>x\<in>set kpost. count_list names x \<le> count_list names L"
    unfolding L_def k f by blast
  have Lin: "L \<in> set names" using d ks by (metis in_set_conv_decomp)
  have mx: "count_list names l \<le> count_list names L" for l
  proof (cases "l \<in> set names")
    case True
    then have "l \<in> set kpre \<or> l = L \<or> l \<in> set kpost" using ks d by auto
    then show ?thesis using p q by (auto simp: less_imp_le)
  next
    case False
    then show ?thesis by (simp add: count_list_0_iff)
  qed
  have fi: "first_index names L < first_index names l"
    if "l \<noteq> L" and "count_list names l = count_list names L" for l
  proof -
    from Lin obtain pre post where n: "names = pre @ L # post" and np: "L \<notin> set pre"
      by (meson split_list_first)
    from keys_before_first[OF np, of post] obtain k1 zs where
      e: "map fst cc = k1 @ L # zs" and sk: "set k1 = set pre" unfolding cc_def n by blast
    have d1: "distinct (kpre @ L # kpost)" using dk unfolding d .
    have d2: "kpre @ L # kpost = k1 @ L # zs" using d e by simp
    have "kpre = k1" by (rule distinct_split_unique[OF d1 d2])
    then have "l \<notin> set pre" using p that(2) sk by auto
    then have "first_index names l = length pre + first_index (L # post) l"
      unfolding first_index_def n by (auto simp: takeWhile_append)
    moreover have "first_index names L = length pre"
      unfolding first_index_def n using np by (auto simp: takeWhile_append)
    ultimately show ?thesis using that(1) by (simp add: first_index_def)
  qed
  show ?thesis using pm Lin mx fi by blast
qed

lemma confidences_nonempty:
  "L \<in> set (map fst recent) \<Longrightarrow> [conf. (name, conf) \<leftarrow> recent, name = L] \<noteq> []"
  by (induction recent) auto

text \<open>With a sample in the window, smoothing returns the majority label and the mean.\<close>

lemma smoothed_majority:
  assumes "recent_detections (detection_history self) now \<noteq> []"
  shows "\<exists>L. snd (get_smoothed_detection self now) =
            Inr (L, fdiv (foldl fadd 0 [conf. (name, conf) \<leftarrow> recent_detections (detection_history self) now, name = L])
                  (real (length [conf. (name, conf) \<leftarrow> recent_detections (detection_history self) now, name = L])))
     \<and> L \<in> set (window_labels self now)
     \<and> (\<forall>l. count_list (window_labels self now) l \<le> count_list (window_labels self now) L)
     \<and> (\<forall>l. l \<noteq> L \<and> count_list (window_labels self now) l = count_list (window_labels self now) L
            \<longrightarrow> first_index (window_labels self now) L < first_index (window_labels self now) l)"
proof -
  let ?recent = "recent_detections (detection_history self) now"
  have hn: "detection_history self \<noteq> []" using assms by auto
  have "window_labels self now \<noteq> []" using assms by (simp add: window_labels_def)
  from most_common_first[OF this] obtain L where
    pm: "py_max (dict_get (class_counts_of ?recent)) (map fst (class_counts_of ?recent)) = Inr L"
    and Lin: "L \<in> set (window_labels self now)"
    and rest: "\<forall>l. count_list (window_labels self now) l \<le> count_list (window_labels self now) L"
      "\<forall>l. l \<noteq> L \<and> count_list (window_labels self now) l = count_list (window_labels self now) L
            \<longrightarrow> first_index (window_labels self now) L < first_index (window_labels self now) l"
    unfolding class_counts_of_def window_labels_def by blast
  have "[conf. (name, conf) \<leftarrow> ?recent, name = L] \<noteq> []"
    using Lin unfolding window_labels_def by (rule confidences_nonempty)
  then have "snd (get_smoothed_detection self now) =
            Inr (L, fdiv (foldl fadd 0 [conf. (name, conf) \<leftarrow> ?recent, name = L])
                  (real (length [conf. (name, conf) \<leftarrow> ?recent, name = L])))"
    using hn assms pm by (simp add: get_smoothed_detection_def Let_def average_def)
  then show ?thesis using Lin rest by blast
qed

lemma smoothing_returns:
  "\<exists>r. get_smoothed_detection self now = (self, Inr r)"
proof (cases "recent_detections (detection_history self) now = []")
  case True
  then show ?thesis by (simp add: get_smoothed_detection_def Let_def)
next
  case False
  from smoothed_majority[OF this] obtain r where "snd (get_smoothed_detection self now) = Inr r"
    by blast
  moreover have "fst (get_smoothed_detection self now) = self"
    by (simp add: get_smoothed_detection_def Let_def split: sum.splits)
  ultimately show ?thesis by (metis prod.collapse)
qed

text \<open>
  Claim C2. Whenever the window holds a sample, smoothing returns a label \<open>L\<close> of the window
  whose count is the highest, and every other label with the same count has its first sample
  later in the window than the first sample of \<open>L\<close>: among tied labels the one inserted
  first wins. Positions are those in the list of samples within the window, which keeps
  the insertion order of the history.
\<close>

theorem tie_goes_to_first_inserted:
  assumes "recent_detections (detection_history self) now \<noteq> []"
  shows "\<exists>L c. snd (get_smoothed_detection self now) = Inr (L, c)
     \<and> L \<in> set (window_labels self now)
     \<and> (\<forall>l. count_list (window_labels self now) l \<le> count_list (window_labels self now) L)
     \<and> (\<forall>l. l \<noteq> L \<and> count_list (window_labels self now) l = count_list (window_labels self now) L
            \<longrightarrow> first_index (window_labels self now) L < first_index (window_labels self now) l)"
  using smoothed_majority[OF assms] by blast

theorem tie_goes_to_first_inserted_witness:
  "\<exists>c. snd (get_smoothed_detection
             (with_history [(''A'', 0.9, 0), (''B'', 0.8, 0.1), (''B'', 0.7, 0.2), (''A'', 0.6, 0.3)]) 1)
         = Inr (''A'', c)"
proof -
  let ?s = "with_history [(''A'', 0.9, 0), (''B'', 0.8, 0.1), (''B'', 0.7, 0.2), (''A'', 0.6, 0.3)]"
  have w: "window_labels ?s 1 = [''A'', ''B'', ''B'', ''A'']"
    by (simp add: window_labels_def with_history_def)
  have "recent_detections (detection_history ?s) 1 \<noteq> []"
    by (simp add: with_history_def)
  from tie_goes_to_first_inserted[OF this] obtain L c where
    r: "snd (get_smoothed_detection ?s 1) = Inr (L, c)"
    and m: "L \<in> set (window_labels ?s 1)"
    and t: "\<forall>l. l \<noteq> L \<and> count_list (window_labels ?s 1) l = count_list (window_labels ?s 1) L
            \<longrightarrow> first_index (window_labels ?s 1) L < first_index (window_labels ?s 1) l"
    by blast
  have "L = ''A''"
  proof (rule ccontr)
    assume "L \<noteq> ''A''"
    then have b: "L = ''B''" using m unfolding w by simp
    have "first_index (window_labels ?s 1) L < first_index (window_labels ?s 1) ''A''"
      using t b unfolding w by simp
    then show False unfolding w b by (simp add: first_index_def)
  qed
  then show ?thesis using r by blast
qed

text \<open>
  Only the samples in the window count for the order: here the first sample of A has left
  the window, A and B have one sample each in it, and the sample of B comes first.
\<close>

lemma tie_order_is_within_window:
  "snd (get_smoothed_detection
          (with_history [(''A'', py_float 0.9, 0), (''B'', py_float 0.8, 5), (''A'', py_float 0.7, 6)])
          6.5)
     = Inr (''B'', py_float 0.8)"
proof -
  have "fdiv (fadd 0 (py_float 0.8)) 1 = py_float 0.8"
    unfolding double_08 by (simp add: fadd_def fdiv_def double_unfold)
  then show ?thesis
    by (simp add: get_smoothed_detection_def with_history_def init_controller_def
        recent_detections_def class_counts_of_def py_max_def dict_get_def average_def)
qed

section \<open>The stored detection of the camera window\<close>

lemma updates_store:
  "current_detection (update_detections self xs) =
     (if xs = [] then current_detection self else Some (last xs))"
  by (induction self xs rule: update_detections.induct) (auto simp: update_detection_def)

text \<open>
  Claim C10. On a window made by \<open>__init__\<close>, after any sequence of \<open>update_detection\<close>
  calls, \<open>get_current_detection\<close> returns \<open>None\<close> if the sequence is empty and raises
  \<open>AttributeError\<close> otherwise; it never returns the stored pair.
\<close>

theorem get_current_detection_raises:
  "get_current_detection (update_detections (init_window w h f) xs) =
     (if xs = [] then Inr None else Inl AttributeError)
   \<and> get_current_detection (update_detection self class_name confidence) = Inl AttributeError
   \<and> get_current_detection self \<noteq> Inr (Some d)"
  by (simp add: get_current_detection_def updates_store init_window_def update_detection_def
      split: option.splits)

section \<open>The renderers and the frames\<close>

lemma in_place_cells [simp]:
  "cells (in_place h a f) b = (if b = a then f (cells h a) else cells h b)"
  by (simp add: in_place_def)

lemma in_place_next [simp]: "next_free (in_place h a f) = next_free h"
  by (simp add: in_place_def)

lemma bar_cells:
  "b \<noteq> frame \<Longrightarrow> cells (draw_confidence_bar lib self h frame confidence w ht) b = cells h b"
  by (simp add: draw_confidence_bar_def Let_def)

lemma bar_next [simp]:
  "next_free (draw_confidence_bar lib self h frame confidence w ht) = next_free h"
  by (simp add: draw_confidence_bar_def Let_def)

lemma info_cells:
  "b \<noteq> frame \<Longrightarrow> cells (draw_frame_info lib self h frame w ht) b = cells h b"
  by (simp add: draw_frame_info_def Let_def)

lemma info_next [simp]:
  "next_free (draw_frame_info lib self h frame w ht) = next_free h"
  by (simp add: draw_frame_info_def Let_def)

text \<open>
  Both renderers return the first reference that was free, and leave every buffer that
  existed before the call as it was.
\<close>

lemma overlay_fresh:
  "\<exists>h'. draw_confidence_overlay lib self h (Some a) = Inr (h', next_free h)
      \<and> (\<forall>b. b < next_free h \<longrightarrow> cells h' b = cells h b)"
  by (simp add: draw_confidence_overlay_def np_copy_def Let_def bar_cells info_cells
      split: prod.splits option.splits)




text \<open>
  Claim C7, as the specification words it, fails: on a null frame the renderer does not
  signal \<open>InvalidFrame\<close>; the attribute access \<open>frame.copy()\<close> raises \<open>AttributeError\<close>.
\<close>

theorem null_frame_not_InvalidFrame:
  "draw_confidence_overlay plain_library (init_window 640 480 30) one_frame_heap None
     \<noteq> Inl InvalidFrame"
  by (simp add: draw_confidence_overlay_def)

text \<open>
  Claim C7, amended. The renderer tests nothing and knows no \<open>InvalidFrame\<close>: on a null
  frame its first statement raises \<open>AttributeError\<close>, and on every frame that is not null,
  an image of whatever size, it returns a frame, the calls of numpy and OpenCV being taken
  not to raise and the confidence being a real number. The display loop does not call it on
  a null frame: when the camera has no frame, the iteration leaves the state as it is.
\<close>

theorem render_fails_only_on_null:
  "draw_confidence_overlay lib self h None = Inl AttributeError
   \<and> (\<exists>h' r. draw_confidence_overlay lib self h (Some a) = Inr (h', r))
   \<and> window_iteration lib st (t\<lparr>wt_frame := Inr None\<rparr>) = st"
proof -
  have "\<exists>h' r. draw_confidence_overlay lib self h (Some a) = Inr (h', r)"
    using overlay_fresh[of lib self h a] by blast
  then show ?thesis
    by (simp add: draw_confidence_overlay_def window_iteration_def window_body_def)
qed

section \<open>The detection loop\<close>

lemma update_history_fields [simp]:
  "predict_times (update_detection_history s c p t) = predict_times s"
  "last_detection_time (update_detection_history s c p t) = last_detection_time s"
  "is_running (update_detection_history s c p t) = is_running s"
  "model (update_detection_history s c p t) = model s"
  "camera_window (update_detection_history s c p t) = camera_window s"
  "show_camera_window (update_detection_history s c p t) = show_camera_window s"
  by (simp_all add: update_detection_history_def Let_def)

lemma show_frame_fields:
  "predict_times (fst (show_frame s t)) = predict_times s
   \<and> last_detection_time (fst (show_frame s t)) = last_detection_time s
   \<and> detection_history (fst (show_frame s t)) = detection_history s"
proof -
  obtain r where "get_smoothed_detection s (tick_smooth_time t) = (s, Inr r)"
    using smoothing_returns by blast
  then show ?thesis
    by (cases r) (simp add: show_frame_def split: option.splits sum.splits)
qed

text \<open>With an interpreter, \<open>predict\<close> lets nothing but a keyboard interrupt out.\<close>

lemma predict_raises:
  "interpreter_set m \<Longrightarrow> predict m i = Inl e \<Longrightarrow> e = KeyboardInterrupt \<and> i = Inl KeyboardInterrupt"
  by (auto simp: predict_def is_Exception_def split: sum.splits if_splits)

lemma run_inference_cases:
  "(run_inference s t = (s, None))
   \<or> (tick_time t - last_detection_time s \<ge> detection_interval
       \<and> predict_times (fst (run_inference s t)) = tick_time t # predict_times s
       \<and> ((snd (run_inference s t) = None
             \<and> last_detection_time (fst (run_inference s t)) = tick_time t
             \<and> is_running (fst (run_inference s t)) = is_running s)
           \<or> (snd (run_inference s t) = Some KeyboardInterrupt)))"
  by (auto simp: run_inference_def Let_def is_loaded_def dest: predict_raises
       split: option.splits sum.splits prod.splits)

text \<open>
  An iteration either leaves the record of calls and the time of the last detection as they
  were, or it called \<open>predict\<close>: then the interval had elapsed, and the time of the last
  detection is the time of this iteration unless the loop has been stopped.
\<close>

lemma iteration_cases:
  "(predict_times (iteration s t) = predict_times s
      \<and> last_detection_time (iteration s t) = last_detection_time s)
   \<or> (tick_time t - last_detection_time s \<ge> detection_interval
       \<and> predict_times (iteration s t) = tick_time t # predict_times s
       \<and> (is_running (iteration s t) \<longrightarrow> last_detection_time (iteration s t) = tick_time t))"
proof (cases "tick_frame t")
  case (Inl e)
  then show ?thesis by (simp add: iteration_def loop_body_def on_exception_def)
next
  case (Inr fo)
  show ?thesis
  proof (cases fo)
    case None
    then show ?thesis using Inr by (simp add: iteration_def loop_body_def)
  next
    case (Some f)
    obtain s1 x where ri: "run_inference s t = (s1, x)" by (cases "run_inference s t")
    obtain s2 y where sf: "show_frame s1 t = (s2, y)" by (cases "show_frame s1 t")
    have f2: "predict_times s2 = predict_times s1"
      "last_detection_time s2 = last_detection_time s1"
      using show_frame_fields[of s1 t] sf by simp_all
    have it: "iteration s t = (case x of Some e \<Rightarrow> on_exception s1 e
                | None \<Rightarrow> (case y of None \<Rightarrow> s2 | Some e \<Rightarrow> on_exception s2 e))"
      using Inr Some ri sf by (simp add: iteration_def loop_body_def split: option.splits)
    show ?thesis
      using run_inference_cases[of s t] ri f2 unfolding it
      by (auto simp: on_exception_def is_Exception_def split: option.splits)
  qed
qed

lemma run_inference_calm:
  "tick_inference t \<noteq> Inl KeyboardInterrupt \<Longrightarrow>
   snd (run_inference s t) = None \<and> is_running (fst (run_inference s t)) = is_running s"
  by (auto simp: run_inference_def Let_def is_loaded_def predict_def is_Exception_def
       split: option.splits sum.splits prod.splits)

lemma show_frame_calm:
  assumes "calm t"
  shows "is_running (case show_frame s t of (s', None) \<Rightarrow> s' | (s', Some e) \<Rightarrow> on_exception s' e)
           = is_running s"
proof -
  obtain r where "get_smoothed_detection s (tick_smooth_time t) = (s, Inr r)"
    using smoothing_returns by blast
  then show ?thesis using assms
    by (cases r) (auto simp: show_frame_def calm_def on_exception_def is_Exception_def
        split: option.splits sum.splits)
qed

lemma iteration_calm:
  assumes "calm t"
  shows "is_running (iteration s t) = is_running s"
proof (cases "tick_frame t")
  case (Inl e)
  then show ?thesis using assms
    by (simp add: iteration_def loop_body_def on_exception_def calm_def is_Exception_def)
next
  case (Inr fo)
  show ?thesis
  proof (cases fo)
    case None
    then show ?thesis using Inr by (simp add: iteration_def loop_body_def)
  next
    case (Some f)
    obtain s1 x where ri: "run_inference s t = (s1, x)" by (cases "run_inference s t")
    have x: "x = None" "is_running s1 = is_running s"
      using run_inference_calm[of t s] assms ri by (simp_all add: calm_def)
    have "iteration s t =
        (case show_frame s1 t of (s', None) \<Rightarrow> s' | (s', Some e) \<Rightarrow> on_exception s' e)"
      using Inr Some ri x by (simp add: iteration_def loop_body_def)
    then show ?thesis using show_frame_calm[OF assms, of s1] x by simp
  qed
qed

lemma iterations_calm:
  "list_all calm ts \<Longrightarrow> is_running (iterations s ts) = is_running s"
  by (induction s ts rule: iterations.induct) (simp_all add: iteration_calm)

text \<open>A failure inside \<open>predict\<close> becomes the sample ("Error", 0.0).\<close>

lemma inference_failure_sample:
  assumes "tick_frame t = Inr (Some f)"
    and "tick_time t - last_detection_time s \<ge> detection_interval"
    and "model s = Some m" and "is_loaded m"
    and "tick_inference t = Inl e" and "is_Exception e"
  shows "detection_history (iteration s t) =
           detection_history (update_detection_history s ''Error'' 0.0 (tick_stamp t))
       \<and> last_detection_time (iteration s t) = tick_time t"
proof -
  obtain s1 x where ri: "run_inference s t = (s1, x)" by (cases "run_inference s t")
  have r1: "x = None" "last_detection_time s1 = tick_time t"
    "detection_history s1 =
       detection_history (update_detection_history s ''Error'' 0.0 (tick_stamp t))"
    using ri assms
    by (auto simp: run_inference_def Let_def is_loaded_def predict_def
        update_detection_history_def split: option.splits)
  obtain s2 y where sf: "show_frame s1 t = (s2, y)" by (cases "show_frame s1 t")
  have f2: "detection_history s2 = detection_history s1"
    "last_detection_time s2 = last_detection_time s1"
    using show_frame_fields[of s1 t] sf by simp_all
  have "iteration s t = (case y of None \<Rightarrow> s2 | Some e \<Rightarrow> on_exception s2 e)"
    using assms(1) ri r1(1) sf by (simp add: iteration_def loop_body_def split: option.splits)
  then show ?thesis using f2 r1
    by (auto simp: on_exception_def split: option.splits)
qed

text \<open>
  Claim C8, as the specification words it, fails twice: an exception of the frame source
  does not end the loop, and a failure of the inference does leave an update, the sample
  ("Error", 0.0) in the history.
\<close>

theorem frame_failure_not_fatal:
  "is_running (iteration running_controller frame_failure)
   \<and> detection_history (iteration running_controller inference_failure) = [(''Error'', 0, 1000)]"
  by (simp add: iteration_def loop_body_def on_exception_def is_Exception_def
      running_controller_def ready_controller_def frame_failure_def inference_failure_def
      quiet_tick_def run_inference_def show_frame_def get_smoothed_detection_def
      recent_detections_def detection_interval_def is_loaded_def predict_def
      update_detection_history_def class_counts_of_def py_max_def dict_get_def average_def
      Let_def)

text \<open>
  Claim C8, amended. In an iteration without a keyboard interrupt and without the key \<open>q\<close>,
  whatever else its calls raise, the frame source, the classifier and the renderer included,
  the loop keeps running; over any sequence of such iterations it never stops. No failure of
  an iteration is fatal. A failure of the inference inside \<open>predict\<close> is answered with the
  pair ("Error", 0.0), which is appended to the history like any sample.
\<close>

theorem exceptions_keep_loop_running:
  "(calm t \<longrightarrow> is_running (iteration s t) = is_running s)
   \<and> (list_all calm ts \<longrightarrow> is_running (run_detection_loop self ts))
   \<and> (tick_frame u = Inr (Some f) \<and> tick_time u - last_detection_time s \<ge> detection_interval
        \<and> model s = Some m \<and> is_loaded m \<and> tick_inference u = Inl e \<and> is_Exception e
      \<longrightarrow> detection_history (iteration s u) =
            detection_history (update_detection_history s ''Error'' 0.0 (tick_stamp u)))"
  using iteration_calm[of t s] iterations_calm[of ts] inference_failure_sample[of u f s m e]
  by (simp add: run_detection_loop_def)

theorem exceptions_keep_loop_running_witness:
  "is_running (iteration running_controller render_failure)
   \<and> is_running (run_detection_loop ready_controller
        [frame_failure, inference_failure, render_failure])
   \<and> detection_history (iteration running_controller inference_failure) =
       detection_history (update_detection_history running_controller ''Error'' 0.0 1000)"
proof (intro conjI)
  have c: "calm frame_failure" "calm inference_failure" "calm render_failure"
    by (simp_all add: calm_def frame_failure_def inference_failure_def render_failure_def
        quiet_tick_def)
  have "is_running (iteration running_controller render_failure) = is_running running_controller"
    by (rule exceptions_keep_loop_running[THEN conjunct1, THEN mp]) (rule c(3))
  then show "is_running (iteration running_controller render_failure)"
    by (simp add: running_controller_def)
  have "list_all calm [frame_failure, inference_failure, render_failure]"
    using c by simp
  then show "is_running (run_detection_loop ready_controller
        [frame_failure, inference_failure, render_failure])"
    by (rule exceptions_keep_loop_running[THEN conjunct2, THEN conjunct1, THEN mp])
  have "tick_frame inference_failure = Inr (Some ())
      \<and> tick_time inference_failure - last_detection_time running_controller \<ge> detection_interval
      \<and> model running_controller = Some \<lparr> interpreter_set = True, labels = [''cat'', ''dog''] \<rparr>
      \<and> is_loaded \<lparr> interpreter_set = True, labels = [''cat'', ''dog''] \<rparr>
      \<and> tick_inference inference_failure = Inl OtherException \<and> is_Exception OtherException"
    by (simp add: inference_failure_def quiet_tick_def running_controller_def
        ready_controller_def detection_interval_def is_loaded_def is_Exception_def)
  then have "detection_history (iteration running_controller inference_failure) =
       detection_history (update_detection_history running_controller ''Error'' 0.0
          (tick_stamp inference_failure))"
    by (rule exceptions_keep_loop_running[THEN conjunct2, THEN conjunct2, THEN mp])
  then show "detection_history (iteration running_controller inference_failure) =
       detection_history (update_detection_history running_controller ''Error'' 0.0 1000)"
    by (simp add: inference_failure_def quiet_tick_def)
qed

section \<open>The throttle\<close>

lemma spaced_step:
  assumes "is_running s" "spaced (predict_times s)"
    "predict_times s = [] \<or> hd (predict_times s) = last_detection_time s"
  shows "spaced (predict_times (iteration s t)) \<and>
     (is_running (iteration s t) \<longrightarrow>
        predict_times (iteration s t) = [] \<or>
        hd (predict_times (iteration s t)) = last_detection_time (iteration s t))"
  using iteration_cases[of s t] assms
  by (cases "predict_times s") auto

lemma spaced_iterations:
  assumes "spaced (predict_times s)"
    "is_running s \<longrightarrow> predict_times s = [] \<or> hd (predict_times s) = last_detection_time s"
  shows "spaced (predict_times (iterations s ts))"
  using assms
proof (induction ts arbitrary: s)
  case Nil
  then show ?case by simp
next
  case (Cons t ts)
  show ?case
  proof (cases "is_running s")
    case True
    have "spaced (predict_times (iterations (iteration s t) ts))"
      using spaced_step[of s t] True Cons.prems by (intro Cons.IH) auto
    then show ?thesis using True by simp
  next
    case False
    then show ?thesis using Cons.prems by simp
  qed
qed

lemma throttled_step:
  assumes "throttled t0 n s" "is_running s" "tick_time t = t0 + real n * 0.05"
  shows "throttled t0 (Suc n) (iteration s t)"
proof -
  consider (same) "predict_times (iteration s t) = predict_times s"
      "last_detection_time (iteration s t) = last_detection_time s"
    | (called) "tick_time t - last_detection_time s \<ge> detection_interval"
      "predict_times (iteration s t) = tick_time t # predict_times s"
      "is_running (iteration s t) \<longrightarrow> last_detection_time (iteration s t) = tick_time t"
    using iteration_cases[of s t] by blast
  then show ?thesis
  proof cases
    case same
    then show ?thesis using assms(1,2) unfolding throttled_def
      by (metis less_Suc_eq)
  next
    case called
    have "10 * length (predict_times s) \<le> n"
    proof (cases "predict_times s = []")
      case True
      then show ?thesis by simp
    next
      case False
      then obtain j where j: "j < n" "10 * (length (predict_times s) - 1) \<le> j"
        "last_detection_time s = t0 + real j * 0.05"
        using assms(1,2) unfolding throttled_def by blast
      have "real n * 0.05 - real j * 0.05 \<ge> 0.5"
        using called(1) assms(3) j(3) by (simp add: detection_interval_def)
      then have "real n - real j \<ge> 10" by simp
      then have "j + 10 \<le> n" by linarith
      moreover have "length (predict_times s) > 0" using False by simp
      ultimately show ?thesis using j(2) by linarith
    qed
    then show ?thesis unfolding throttled_def using called(2,3) assms(3)
      by (intro disjI2 exI[of _ n]) simp
  qed
qed

lemma throttled_iterations:
  assumes "throttled t0 n s"
    and "\<forall>k<length ts. tick_time (ts ! k) = t0 + real (n + k) * 0.05"
  shows "throttled t0 (n + length ts) (iterations s ts)"
  using assms
proof (induction ts arbitrary: s n)
  case Nil
  then show ?case by simp
next
  case (Cons t ts)
  show ?case
  proof (cases "is_running s")
    case True
    have t: "tick_time t = t0 + real n * 0.05" using Cons.prems(2) by force
    have "\<forall>k<length ts. tick_time (ts ! k) = t0 + real (Suc n + k) * 0.05"
      using Cons.prems(2) by force
    from Cons.IH[OF throttled_step[OF Cons.prems(1) True t] this]
    show ?thesis using True by simp
  next
    case False
    then show ?thesis using Cons.prems(1) unfolding throttled_def
      by (auto intro: less_le_trans)
  qed
qed

text \<open>
  Claim C9. The interval is 0.5 seconds. In every run of the loop, each call of \<open>predict\<close>
  after the first comes at least 0.5 seconds, by the clock of the loop, after the call before
  it. In a run of forty iterations at the times \<open>t0\<close>, \<open>t0 + 0.05\<close>, ..., \<open>t0 + 1.95\<close>
  (two seconds of iterations every 0.05 seconds) \<open>predict\<close> is called at most four times.
\<close>

theorem predict_throttled:
  assumes "length ts = 40"
    and "\<forall>k<40. tick_time (ts ! k) = t0 + real k * 0.05"
  shows "length (predict_times (run_detection_loop self ts)) \<le> 4
       \<and> spaced (predict_times (run_detection_loop self us))
       \<and> detection_interval = 0.5"
proof -
  let ?s0 = "self\<lparr>is_running := True, frame_count := 0, last_detection_time := 0,
                  predict_times := []\<rparr>"
  have "throttled t0 0 ?s0" by (simp add: throttled_def)
  moreover have "\<forall>k<length ts. tick_time (ts ! k) = t0 + real (0 + k) * 0.05"
    using assms by simp
  ultimately have "throttled t0 (0 + length ts) (iterations ?s0 ts)"
    by (rule throttled_iterations)
  then have "throttled t0 40 (run_detection_loop self ts)"
    using assms(1) by (simp add: run_detection_loop_def)
  then have "length (predict_times (run_detection_loop self ts)) \<le> 4"
    unfolding throttled_def by (cases "predict_times (run_detection_loop self ts)") auto
  moreover have "spaced (predict_times (run_detection_loop self us))"
    unfolding run_detection_loop_def by (rule spaced_iterations) simp_all
  ultimately show ?thesis by (simp add: detection_interval_def)
qed

lemma upt_forty:
  "[0..<40] = [0, 1, 2, 3, 4, 5, 6, 7, 8, 9, 10, 11, 12, 13, 14, 15, 16, 17, 18, 19, 20, 21, 22,
     23, 24, 25, 26, 27, 28, 29, 30, 31, 32, 33, 34, 35, 36, 37, 38, 39]"
  by (simp add: upt_rec)

lemmas loop_unfold =
  run_detection_loop_def ready_controller_def quiet_tick_def iteration_def loop_body_def
  run_inference_def show_frame_def get_smoothed_detection_def recent_detections_def
  detection_interval_def is_loaded_def predict_def update_detection_history_def
  class_counts_of_def py_max_def dict_get_def average_def Let_def on_exception_def

text \<open>
  In the run of forty quiet iterations from time 1000 on, \<open>predict\<close> is called in the
  iterations at 1000, 1000.5, 1001 and 1001.5. An iteration at 1002, two seconds after the
  first, begins the next interval and calls it a fifth time.
\<close>

lemma forty_ticks_four_calls:
  "predict_times (run_detection_loop ready_controller forty_ticks) = [1001.5, 1001, 1000.5, 1000]"
  unfolding forty_ticks_def upt_forty by (simp add: loop_unfold)

lemma forty_one_ticks_five_calls:
  "predict_times (run_detection_loop ready_controller forty_one_ticks) =
     [1002, 1001.5, 1001, 1000.5, 1000]"
  unfolding forty_one_ticks_def forty_ticks_def upt_forty by (simp add: loop_unfold)

theorem predict_throttled_witness:
  "length (predict_times (run_detection_loop ready_controller forty_ticks)) \<le> 4
   \<and> spaced (predict_times (run_detection_loop ready_controller forty_ticks))"
proof -
  have l: "length forty_ticks = 40" by (simp add: forty_ticks_def)
  have t: "\<forall>k<40. tick_time (forty_ticks ! k) = 1000 + real k * 0.05"
    by (simp add: forty_ticks_def quiet_tick_def)
  show ?thesis using predict_throttled[OF l t, of ready_controller forty_ticks] by blast
qed

end
